theory Spec2Isabelle
  imports Main "HOL-Library.Word"
begin

unbundle bit_operations_syntax

section \<open>The bladeRF sink of gr-osmosdr: data model\<close>

text \<open>
  The development embeds \<^verbatim>\<open>lib/bladerf/bladerf_sink_c.cc\<close>: the entry points
  \<^verbatim>\<open>start\<close>, \<^verbatim>\<open>stop\<close> and \<^verbatim>\<open>work\<close>, and the private
  \<^verbatim>\<open>transmit_with_tags\<close>.

  The constants of libbladeRF and of the GNU Radio runtime that the file names but does
  not define are collected in one record, which every function takes as its first
  argument; the general theorems below hold for every choice of them.
\<close>

record lib_consts =
  META_FLAG_TX_BURST_START :: "32 word"
  META_FLAG_TX_BURST_END :: "32 word"
  META_FLAG_TX_NOW :: "32 word"
  ERR_INVAL :: int
  MAX_CONSECUTIVE_FAILURES :: nat
  WORK_DONE :: int

text \<open>
  \<^verbatim>\<open>struct bladerf_metadata\<close>, as far as the sink touches it: the whole struct is
  zeroed by \<^verbatim>\<open>memset\<close> and only \<^verbatim>\<open>flags\<close> is written afterwards.
\<close>

record bladerf_metadata =
  timestamp :: "64 word"
  flags :: "32 word"

definition zero_meta :: bladerf_metadata where
  "zero_meta = \<lparr>timestamp = 0, flags = 0\<rparr>"

text \<open>
  The buffer argument of \<^verbatim>\<open>bladerf_sync_tx\<close> is either a pointer into the converted
  samples, \<^verbatim>\<open>&samples[k]\<close> (\<open>Samples k\<close>, with \<open>k\<close> counting 16-bit values: the
  complex sample of index \<open>i\<close> starts at \<open>2 * i\<close>), or the local array
  \<^verbatim>\<open>zeros\<close>. The metadata argument is \<open>None\<close> for \<^verbatim>\<open>NULL\<close>.
\<close>

datatype buffer = Samples int | Zeros

datatype call =
    Sync_config
  | Enable_module nat bool
  | Sync_tx buffer int "bladerf_metadata option"

datatype bladerf_format = SC16_Q11 | SC16_Q11_META

text \<open>
  The members of the object. \<open>calls\<close> is not a member: it records, in order, every call
  made to the device, so that "no transfer is issued" can be stated. \<open>nstreams\<close> stands
  for \<^verbatim>\<open>num_streams(_layout)\<close>, \<open>max_channels\<close> for \<^verbatim>\<open>get_max_channels()\<close> and
  \<open>channel_enable\<close> for \<^verbatim>\<open>get_channel_enable\<close>, all three defined in
  \<^verbatim>\<open>bladerf_common\<close>. A buffer pointer is \<open>None\<close> when it is \<^verbatim>\<open>NULL\<close>, and
  otherwise holds the contents of the block it points to.
\<close>

record ('a, 'b) sink =
  in_burst :: bool
  running :: bool
  failures :: nat
  format :: bladerf_format
  nstreams :: nat
  max_channels :: nat
  channel_enable :: "nat \<Rightarrow> bool"
  samples_per_buffer :: nat
  icbuf16 :: "'b list option"
  fcbuf32 :: "'a list option"
  calls :: "call list"

text \<open>
  The device is a script: \<open>dev k\<close> is the status that the call number \<open>k\<close> (counted
  from 0 over the life of the object) returns. A call is logged and its status read off.
\<close>

type_synonym device = "nat \<Rightarrow> int"

definition hw :: "device \<Rightarrow> call \<Rightarrow> ('a, 'b) sink \<Rightarrow> int \<times> ('a, 'b) sink" where
  "hw dev c s = (dev (length (calls s)), s\<lparr>calls := calls s @ [c]\<rparr>)"

section \<open>transmit_with_tags\<close>

text \<open>A tag, with \<^verbatim>\<open>pmt::symbol_to_string(tag.key)\<close> for its key.\<close>

record tag_t =
  key :: string
  offset :: "64 word"

text \<open>
  \<^verbatim>\<open>static_cast<int>(tag.offset - nitems_read(0))\<close>: a subtraction of unsigned 64-bit
  values, whose low 32 bits are read as a signed integer.
\<close>

definition rel_offset :: "64 word \<Rightarrow> tag_t \<Rightarrow> int" where
  "rel_offset nread t = sint (ucast (offset t - nread) :: 32 word)"

definition INVALID_IDX :: int where
  "INVALID_IDX = - 1"

text \<open>
  The local variables of \<^verbatim>\<open>transmit_with_tags\<close>. \<^verbatim>\<open>status\<close> is declared without an
  initialiser; the value it holds until its first assignment is an argument of the model.
  Index arithmetic is on \<open>int\<close>: the indices of tags inside the window are far from the
  limits of a C \<^verbatim>\<open>int\<close>.
\<close>

record locals =
  status :: int
  count :: int
  start_idx :: int
  end_idx :: int
  meta :: bladerf_metadata

text \<open>
  The body of the loop over the tags. The first component of the result is \<open>Some r\<close>
  when the body executes \<^verbatim>\<open>return r\<close>, and \<open>None\<close> when it runs to its end.
\<close>

definition tag_step ::
  "lib_consts \<Rightarrow> device \<Rightarrow> int \<Rightarrow> 64 word \<Rightarrow> tag_t \<Rightarrow> locals \<times> ('a, 'b) sink
     \<Rightarrow> int option \<times> locals \<times> ('a, 'b) sink" where
  "tag_step K dev noutput_items nread t ls =
    (case ls of (l, s) \<Rightarrow>
      if key t = ''tx_sob'' then
        (if in_burst s then (Some (ERR_INVAL K), l, s)
         else
           (None,
            l\<lparr>start_idx := rel_offset nread t,
              meta := (meta l)\<lparr>flags := flags (meta l) OR
                         (META_FLAG_TX_NOW K OR META_FLAG_TX_BURST_START K)\<rparr>\<rparr>,
            s\<lparr>in_burst := True\<rparr>))
      else if key t = ''tx_eob'' then
        (if \<not> in_burst s then (Some (ERR_INVAL K), l, s)
         else
           let l1 = l\<lparr>end_idx := rel_offset nread t\<rparr> in
           if start_idx l1 = INVALID_IDX \<or> start_idx l1 > end_idx l1
           then (Some (ERR_INVAL K), l1, s)
           else
             let l2 = l1\<lparr>count := end_idx l1 - start_idx l1 + 1\<rparr>;
                 (st, s1) = hw dev (Sync_tx (Samples (2 * start_idx l2)) (count l2)
                                      (Some (meta l2))) s;
                 l3 = l2\<lparr>status := st\<rparr>
             in
             if st \<noteq> 0 then (Some st, l3, s1)
             else
               let l4 = l3\<lparr>meta := (meta l3)\<lparr>flags := flags (meta l3) AND
                            NOT (META_FLAG_TX_NOW K OR META_FLAG_TX_BURST_START K)\<rparr>\<rparr>;
                   l5 = l4\<lparr>meta := (meta l4)\<lparr>flags := flags (meta l4) OR
                            META_FLAG_TX_BURST_END K\<rparr>\<rparr>;
                   (st2, s2) = hw dev (Sync_tx Zeros 4 (Some (meta l5))) s1;
                   l6 = l5\<lparr>status := st2, start_idx := INVALID_IDX,
                           end_idx := noutput_items - 1,
                           meta := (meta l5)\<lparr>flags := 0\<rparr>\<rparr>;
                   s3 = s2\<lparr>in_burst := False\<rparr>
               in
               if st2 \<noteq> 0 then (Some st2, l6, s3) else (None, l6, s3))
      else (None, l, s))"

fun tag_loop ::
  "lib_consts \<Rightarrow> device \<Rightarrow> int \<Rightarrow> 64 word \<Rightarrow> tag_t list \<Rightarrow> locals \<times> ('a, 'b) sink
     \<Rightarrow> int option \<times> locals \<times> ('a, 'b) sink" where
  "tag_loop K dev noutput_items nread [] ls = (None, ls)"
| "tag_loop K dev noutput_items nread (t # ts) ls =
    (case tag_step K dev noutput_items nread t ls of
       (Some r, ls') \<Rightarrow> (Some r, ls')
     | (None, ls') \<Rightarrow> tag_loop K dev noutput_items nread ts ls')"

text \<open>
  \<open>tags\<close> is what \<^verbatim>\<open>get_tags_in_window\<close> delivers, \<open>nread\<close> is
  \<^verbatim>\<open>nitems_read(0)\<close>, and \<open>status0\<close> is the value of the uninitialised
  \<^verbatim>\<open>status\<close>. The result is the returned status and the object afterwards.
\<close>

definition init_locals :: "int \<Rightarrow> int \<Rightarrow> locals" where
  "init_locals status0 noutput_items =
     \<lparr>status = status0, count = 0, start_idx = 0, end_idx = noutput_items - 1,
      meta = zero_meta\<rparr>"

definition transmit_with_tags ::
  "lib_consts \<Rightarrow> device \<Rightarrow> int \<Rightarrow> tag_t list \<Rightarrow> 64 word \<Rightarrow> int \<Rightarrow> ('a, 'b) sink
     \<Rightarrow> int \<times> ('a, 'b) sink" where
  "transmit_with_tags K dev status0 tags nread noutput_items s =
    (let l0 = init_locals status0 noutput_items in
     if length tags = 0 \<and> in_burst s
     then hw dev (Sync_tx (Samples 0) noutput_items (Some (meta l0))) s
     else
       (case tag_loop K dev noutput_items nread tags (l0, s) of
          (Some r, l, s') \<Rightarrow> (r, s')
        | (None, l, s') \<Rightarrow>
            if in_burst s' then
              (let l1 = l\<lparr>count := end_idx l - start_idx l + 1\<rparr>
               in hw dev (Sync_tx (Samples (2 * start_idx l1)) (count l1)
                            (Some (meta l1))) s')
            else (status l, s')))"

section \<open>start and stop\<close>

text \<open>
  An entry point either returns, or leaves through \<^verbatim>\<open>BLADERF_THROW_STATUS\<close> with
  the failed status and its message, or (for \<^verbatim>\<open>work\<close>) copies through a
  \<^verbatim>\<open>NULL\<close> buffer pointer. The object keeps the writes made before a throw.
\<close>

datatype 'r outcome = Returned 'r | Threw int string | Null_deref

text \<open>
  The loop over the channels, common to \<^verbatim>\<open>start\<close> and \<^verbatim>\<open>stop\<close>:
  \<^verbatim>\<open>bladerf_enable_module\<close> on \<^verbatim>\<open>BLADERF_CHANNEL_TX(ch)\<close> with the channel's
  enable flag. \<open>Some status\<close> is the status that made the loop throw.
\<close>

fun enable_modules ::
  "device \<Rightarrow> nat list \<Rightarrow> ('a, 'b) sink \<Rightarrow> int option \<times> ('a, 'b) sink" where
  "enable_modules dev [] s = (None, s)"
| "enable_modules dev (ch # chs) s =
    (case hw dev (Enable_module ch (channel_enable s ch)) s of
       (rc, s') \<Rightarrow>
         if rc \<noteq> 0 then (Some rc, s') else enable_modules dev chs s')"

text \<open>
  \<open>mem16\<close> and \<open>mem32\<close> are the contents of the two blocks, each for
  \<open>samples_per_buffer\<close> complex samples, that \<^verbatim>\<open>volk_malloc\<close> hands out (the
  allocation is taken to succeed).
\<close>

definition start ::
  "device \<Rightarrow> 'b list \<Rightarrow> 'a list \<Rightarrow> ('a, 'b) sink \<Rightarrow> bool outcome \<times> ('a, 'b) sink" where
  "start dev mem16 mem32 s =
    (let s1 = s\<lparr>in_burst := False\<rparr>;
         (rc, s2) = hw dev Sync_config s1
     in
     if rc \<noteq> 0 then (Threw rc ''bladerf_sync_config failed'', s2)
     else
       (case enable_modules dev [0..<max_channels s2] s2 of
          (Some st, s3) \<Rightarrow> (Threw st ''bladerf_enable_module failed'', s3)
        | (None, s3) \<Rightarrow>
            (Returned True,
             s3\<lparr>icbuf16 := Some mem16, fcbuf32 := Some mem32, running := True\<rparr>)))"

definition stop :: "device \<Rightarrow> ('a, 'b) sink \<Rightarrow> bool outcome \<times> ('a, 'b) sink" where
  "stop dev s =
    (if \<not> running s then (Returned True, s)
     else
       let s1 = s\<lparr>running := False\<rparr> in
       (case enable_modules dev [0..<max_channels s1] s1 of
          (Some st, s2) \<Rightarrow> (Threw st ''bladerf_enable_module failed'', s2)
        | (None, s2) \<Rightarrow> (Returned True, s2\<lparr>icbuf16 := None, fcbuf32 := None\<rparr>)))"

section \<open>work\<close>

text \<open>
  What one invocation of \<^verbatim>\<open>work\<close> receives from the scheduler: the item count, the
  input streams, the tags of the window and \<^verbatim>\<open>nitems_read(0)\<close>; \<open>stack_status\<close> is
  the value that the uninitialised \<^verbatim>\<open>status\<close> of \<^verbatim>\<open>transmit_with_tags\<close> holds
  in this invocation.
\<close>

record 'a invocation =
  noutput_items :: int
  input_items :: "'a list list"
  window_tags :: "tag_t list"
  nitems_read :: "64 word"
  stack_status :: int

text \<open>
  The two nested loops that interleave the streams. \<open>out\<close> is what has been written
  through \<^verbatim>\<open>intl_out\<close> so far, in order, and \<open>pos ! n\<close> is how far the pointer
  \<^verbatim>\<open>in[n]\<close> has advanced. Each stream is taken to hold the items that are read.
\<close>

definition copy_one :: "'a list list \<Rightarrow> nat \<Rightarrow> 'a list \<times> nat list \<Rightarrow> 'a list \<times> nat list" where
  "copy_one ins n st =
     (case st of (out, pos) \<Rightarrow> (out @ [ins ! n ! (pos ! n)], pos[n := pos ! n + 1]))"

definition interleave :: "nat \<Rightarrow> nat \<Rightarrow> 'a list list \<Rightarrow> 'a list" where
  "interleave ns frames ins =
     fst (fold (\<lambda>i st. fold (copy_one ins) [0..<ns] st) [0..<frames] ([], replicate ns 0))"

text \<open>Writing \<open>xs\<close> at the start of a block leaves the rest of the block as it was.\<close>

definition write_buf :: "'c list \<Rightarrow> 'c list \<Rightarrow> 'c list" where
  "write_buf xs buf = xs @ drop (length xs) buf"

definition copy_in :: "nat \<Rightarrow> int \<Rightarrow> 'a list list \<Rightarrow> 'a list \<Rightarrow> 'a list" where
  "copy_in ns n ins buf =
     (if ns > 1 then write_buf (interleave ns (nat n div ns) ins) buf
      else write_buf (take (nat n) (ins ! 0)) buf)"

text \<open>
  The part of \<^verbatim>\<open>work\<close> from the copy to the transfer, for buffers \<open>fb\<close> and \<open>ib\<close>
  that are allocated. \<open>conv\<close> is what \<^verbatim>\<open>volk_32f_s32f_convert_16i\<close> with
  \<^verbatim>\<open>SCALING_FACTOR\<close> makes of one complex sample.
\<close>

definition work_transmit ::
  "lib_consts \<Rightarrow> device \<Rightarrow> ('a \<Rightarrow> 'b) \<Rightarrow> 'a invocation \<Rightarrow> 'a list \<Rightarrow> 'b list
     \<Rightarrow> ('a, 'b) sink \<Rightarrow> int \<times> ('a, 'b) sink" where
  "work_transmit K dev conv a fb ib s =
    (let fb' = copy_in (nstreams s) (noutput_items a) (input_items a) fb;
         s1 = s\<lparr>fcbuf32 := Some fb'\<rparr>;
         ib' = write_buf (map conv (take (nat (noutput_items a)) fb')) ib;
         s2 = s1\<lparr>icbuf16 := Some ib'\<rparr>
     in
     if format s2 = SC16_Q11_META
     then transmit_with_tags K dev (stack_status a) (window_tags a) (nitems_read a)
            (noutput_items a) s2
     else hw dev (Sync_tx (Samples 0) (noutput_items a) None) s2)"

definition work ::
  "lib_consts \<Rightarrow> device \<Rightarrow> ('a \<Rightarrow> 'b) \<Rightarrow> 'a invocation \<Rightarrow> ('a, 'b) sink
     \<Rightarrow> int outcome \<times> ('a, 'b) sink" where
  "work K dev conv a s =
    (if \<not> running s then (Returned 0, s)
     else
       (case (fcbuf32 s, icbuf16 s) of
          (Some fb, Some ib) \<Rightarrow>
            (case work_transmit K dev conv a fb ib s of
               (rc, s3) \<Rightarrow>
                 if rc \<noteq> 0 then
                   (let s4 = s3\<lparr>failures := failures s3 + 1\<rparr> in
                    if failures s4 \<ge> MAX_CONSECUTIVE_FAILURES K
                    then (Returned (WORK_DONE K), s4)
                    else (Returned (noutput_items a), s4))
                 else (Returned (noutput_items a), s3\<lparr>failures := 0\<rparr>))
        | _ \<Rightarrow> (Null_deref, s)))"

text \<open>A sequence of invocations, and the values they return.\<close>

fun work_run ::
  "lib_consts \<Rightarrow> device \<Rightarrow> ('a \<Rightarrow> 'b) \<Rightarrow> 'a invocation list \<Rightarrow> ('a, 'b) sink
     \<Rightarrow> int outcome list \<times> ('a, 'b) sink" where
  "work_run K dev conv [] s = ([], s)"
| "work_run K dev conv (a # as) s =
    (case work K dev conv a s of
       (r, s') \<Rightarrow> (case work_run K dev conv as s' of (rs, s'') \<Rightarrow> (r # rs, s'')))"

text \<open>
  The status that \<^verbatim>\<open>work\<close> tests after the transfer, when it gets that far, and the
  sequences of invocations in which it is non-zero every time.
\<close>

definition work_status ::
  "lib_consts \<Rightarrow> device \<Rightarrow> ('a \<Rightarrow> 'b) \<Rightarrow> 'a invocation \<Rightarrow> ('a, 'b) sink \<Rightarrow> int option" where
  "work_status K dev conv a s =
    (if \<not> running s then None
     else
       (case (fcbuf32 s, icbuf16 s) of
          (Some fb, Some ib) \<Rightarrow> Some (fst (work_transmit K dev conv a fb ib s))
        | _ \<Rightarrow> None))"

fun all_fail ::
  "lib_consts \<Rightarrow> device \<Rightarrow> ('a \<Rightarrow> 'b) \<Rightarrow> 'a invocation list \<Rightarrow> ('a, 'b) sink \<Rightarrow> bool" where
  "all_fail K dev conv [] s = True"
| "all_fail K dev conv (a # as) s =
    ((case work_status K dev conv a s of None \<Rightarrow> False | Some st \<Rightarrow> st \<noteq> 0) \<and>
     all_fail K dev conv as (snd (work K dev conv a s)))"

section \<open>Concrete values\<close>

text \<open>
  One choice of the constants, four scripted devices, a running sink with buffers of
  eight samples, two invocations and three kinds of tag, on which the definitions are
  evaluated below.
\<close>

definition example_consts :: lib_consts where
  "example_consts =
     \<lparr>META_FLAG_TX_BURST_START = 1, META_FLAG_TX_BURST_END = 2, META_FLAG_TX_NOW = 4,
      ERR_INVAL = - 3, MAX_CONSECUTIVE_FAILURES = 3, WORK_DONE = - 1\<rparr>"

definition always_ok :: device where
  "always_ok k = 0"

definition always_fail :: device where
  "always_fail k = - 1"

definition fail_second :: device where
  "fail_second k = (if k = 1 then - 1 else 0)"

definition fail_thrice :: device where
  "fail_thrice k = (if k < 3 then - 1 else 0)"

definition example_sink :: "(nat, nat) sink" where
  "example_sink =
     \<lparr>in_burst = False, running = True, failures = 0, format = SC16_Q11_META,
      nstreams = 1, max_channels = 1, channel_enable = (\<lambda>ch. True),
      samples_per_buffer = 8, icbuf16 = Some (replicate 8 0),
      fcbuf32 = Some (replicate 8 0), calls = []\<rparr>"

definition example_call :: "nat invocation" where
  "example_call =
     \<lparr>noutput_items = 4, input_items = [[1, 2, 3, 4]], window_tags = [],
      nitems_read = 1000, stack_status = - 1\<rparr>"

definition two_channel_call :: "nat invocation" where
  "two_channel_call =
     \<lparr>noutput_items = 4, input_items = [[10, 11, 12, 13], [20, 21, 22, 23]],
      window_tags = [], nitems_read = 1000, stack_status = 0\<rparr>"

definition sob_tag :: "64 word \<Rightarrow> tag_t" where
  "sob_tag off = \<lparr>key = ''tx_sob'', offset = off\<rparr>"

definition eob_tag :: "64 word \<Rightarrow> tag_t" where
  "eob_tag off = \<lparr>key = ''tx_eob'', offset = off\<rparr>"

definition other_tag :: "64 word \<Rightarrow> tag_t" where
  "other_tag off = \<lparr>key = ''rx_time'', offset = off\<rparr>"

section \<open>Auxiliary facts\<close>

lemma flags_cleared: "((a::32 word) OR b) AND NOT a AND NOT b = 0"
  by (auto simp: bit_eq_iff bit_simps)

lemma tag_loop_ignored:
  "\<forall>t \<in> set ts. key t \<noteq> ''tx_sob'' \<and> key t \<noteq> ''tx_eob'' \<Longrightarrow>
   tag_loop K dev n nread ts ls = (None, ls)"
  by (induction ts) (auto simp: tag_step_def split: prod.splits)

lemma tag_loop_append:
  "tag_loop K dev n nread (ts @ us) ls =
    (case tag_loop K dev n nread ts ls of
       (Some r, ls') \<Rightarrow> (Some r, ls')
     | (None, ls') \<Rightarrow> tag_loop K dev n nread us ls')"
  by (induction ts arbitrary: ls) (auto split: prod.splits option.splits)

lemma transmit_early_return:
  assumes "tag_loop K dev n nread pre (init_locals st0 n, s) = (None, l, s1)"
    and "tag_step K dev n nread t (l, s1) = (Some r, l', s')"
  shows "transmit_with_tags K dev st0 (pre @ t # rest) nread n s = (r, s')"
  using assms by (simp add: transmit_with_tags_def tag_loop_append Let_def)

text \<open>The tag loop writes no member other than \<open>in_burst\<close> (and the log of calls).\<close>

lemma tag_step_frame:
  "tag_step K dev n nread t (l, s) = (r, l', s') \<Longrightarrow>
     running s' = running s \<and> failures s' = failures s \<and> fcbuf32 s' = fcbuf32 s \<and>
     icbuf16 s' = icbuf16 s \<and> format s' = format s \<and> nstreams s' = nstreams s"
  by (auto simp: tag_step_def hw_def Let_def split: if_splits)

lemma tag_loop_frame:
  "tag_loop K dev n nread ts (l, s) = (r, l', s') \<Longrightarrow>
     running s' = running s \<and> failures s' = failures s \<and> fcbuf32 s' = fcbuf32 s \<and>
     icbuf16 s' = icbuf16 s \<and> format s' = format s \<and> nstreams s' = nstreams s"
proof (induction ts arbitrary: l s)
  case Nil
  then show ?case by simp
next
  case (Cons t ts)
  obtain r1 l1 s1 where st: "tag_step K dev n nread t (l, s) = (r1, l1, s1)"
    by (cases "tag_step K dev n nread t (l, s)") auto
  note f1 = tag_step_frame [OF st]
  show ?case
  proof (cases r1)
    case None
    with Cons.prems st have "tag_loop K dev n nread ts (l1, s1) = (r, l', s')" by simp
    from Cons.IH [OF this] f1 show ?thesis by simp
  next
    case (Some x)
    with Cons.prems st have "s' = s1" by simp
    with f1 show ?thesis by simp
  qed
qed

lemma transmit_frame:
  assumes "transmit_with_tags K dev st0 tags nread n s = (r, s')"
  shows "running s' = running s \<and> failures s' = failures s \<and> fcbuf32 s' = fcbuf32 s \<and>
     icbuf16 s' = icbuf16 s \<and> format s' = format s \<and> nstreams s' = nstreams s"
proof (cases "length tags = 0 \<and> in_burst s")
  case True
  with assms show ?thesis by (auto simp: transmit_with_tags_def Let_def hw_def)
next
  case False
  obtain r1 l1 s1 where lp: "tag_loop K dev n nread tags (init_locals st0 n, s) = (r1, l1, s1)"
    by (cases "tag_loop K dev n nread tags (init_locals st0 n, s)") auto
  note f = tag_loop_frame [OF lp]
  from False assms lp f show ?thesis
    by (cases r1) (auto simp: transmit_with_tags_def Let_def hw_def split: if_splits)
qed

lemma work_transmit_frame:
  assumes "work_transmit K dev conv a fb ib s = (r, s')"
  shows "running s' = running s \<and> failures s' = failures s \<and>
     fcbuf32 s' = Some (copy_in (nstreams s) (noutput_items a) (input_items a) fb) \<and>
     icbuf16 s' = Some (write_buf (map conv (take (nat (noutput_items a))
        (copy_in (nstreams s) (noutput_items a) (input_items a) fb))) ib)"
proof (cases "format s = SC16_Q11_META")
  case True
  with assms show ?thesis
    by (auto simp: work_transmit_def Let_def dest!: transmit_frame)
next
  case False
  with assms show ?thesis
    by (auto simp: work_transmit_def Let_def hw_def)
qed

section \<open>Facts about work\<close>

lemma work_fail:
  assumes "work_status K dev conv a s = Some st" "st \<noteq> 0"
  shows "fst (work K dev conv a s) =
           Returned (if MAX_CONSECUTIVE_FAILURES K \<le> failures s + 1 then WORK_DONE K
                     else noutput_items a)"
    and "failures (snd (work K dev conv a s)) = failures s + 1"
proof -
  from assms(1) obtain fb ib where b: "running s" "fcbuf32 s = Some fb" "icbuf16 s = Some ib"
    and st: "st = fst (work_transmit K dev conv a fb ib s)"
    by (auto simp: work_status_def split: if_splits option.splits)
  obtain s3 where wt: "work_transmit K dev conv a fb ib s = (st, s3)"
    using st by (cases "work_transmit K dev conv a fb ib s") auto
  note f = work_transmit_frame [OF wt]
  show "fst (work K dev conv a s) =
           Returned (if MAX_CONSECUTIVE_FAILURES K \<le> failures s + 1 then WORK_DONE K
                     else noutput_items a)"
    using b wt f assms(2) by (simp add: work_def Let_def)
  show "failures (snd (work K dev conv a s)) = failures s + 1"
    using b wt f assms(2) by (simp add: work_def Let_def)
qed

lemma work_success:
  assumes "work_status K dev conv a s = Some 0"
  shows "fst (work K dev conv a s) = Returned (noutput_items a)"
    and "failures (snd (work K dev conv a s)) = 0"
proof -
  from assms(1) obtain fb ib where b: "running s" "fcbuf32 s = Some fb" "icbuf16 s = Some ib"
    and st: "0 = fst (work_transmit K dev conv a fb ib s)"
    by (auto simp: work_status_def split: if_splits option.splits)
  obtain s3 where wt: "work_transmit K dev conv a fb ib s = (0, s3)"
    using st by (cases "work_transmit K dev conv a fb ib s") auto
  show "fst (work K dev conv a s) = Returned (noutput_items a)"
    using b wt by (simp add: work_def Let_def)
  show "failures (snd (work K dev conv a s)) = 0"
    using b wt by (simp add: work_def Let_def)
qed

lemma run_fail:
  "all_fail K dev conv as s \<Longrightarrow>
     failures (snd (work_run K dev conv as s)) = failures s + length as \<and>
     (\<forall>k < length as. fst (work_run K dev conv as s) ! k =
        Returned (if MAX_CONSECUTIVE_FAILURES K \<le> failures s + k + 1 then WORK_DONE K
                  else noutput_items (as ! k)))"
proof (induction as arbitrary: s)
  case Nil
  then show ?case by simp
next
  case (Cons a as)
  from Cons.prems obtain st where st: "work_status K dev conv a s = Some st" "st \<noteq> 0"
    and rest: "all_fail K dev conv as (snd (work K dev conv a s))"
    by (auto split: option.splits)
  note w = work_fail [OF st]
  note ih = Cons.IH [OF rest]
  obtain r s' where ws: "work K dev conv a s = (r, s')" by (cases "work K dev conv a s") auto
  obtain rs s'' where wr: "work_run K dev conv as s' = (rs, s'')"
    by (cases "work_run K dev conv as s'") auto
  have f: "failures s'' = failures s + length (a # as)"
    using ih w(2) ws wr by simp
  have "fst (work_run K dev conv (a # as) s) ! k =
        Returned (if MAX_CONSECUTIVE_FAILURES K \<le> failures s + k + 1 then WORK_DONE K
                  else noutput_items ((a # as) ! k))" if "k < length (a # as)" for k
  proof (cases k)
    case 0
    with w(1) ws wr show ?thesis by simp
  next
    case (Suc j)
    with that have "j < length as" by simp
    with ih ws wr w(2) Suc show ?thesis by simp
  qed
  with f ws wr show ?case by simp
qed

section \<open>Facts about start, stop and the copy\<close>

lemma enable_modules_frame:
  "enable_modules dev chs s = (r, s') \<Longrightarrow>
     in_burst s' = in_burst s \<and> running s' = running s"
  by (induction chs arbitrary: s) (auto simp: hw_def split: if_splits)

lemma enable_modules_ok:
  "\<forall>k < length chs. dev (length (calls s) + k) = 0 \<Longrightarrow>
     fst (enable_modules dev chs s) = None"
proof (induction chs arbitrary: s)
  case Nil
  then show ?case by simp
next
  case (Cons ch chs)
  from Cons.prems have 0: "dev (length (calls s)) = 0" by force
  have "\<forall>k < length chs.
      dev (length (calls (s\<lparr>calls := calls s @ [Enable_module ch (channel_enable s ch)]\<rparr>)) + k) = 0"
    using Cons.prems by force
  from Cons.IH [OF this] 0 show ?case by (simp add: hw_def)
qed

lemma stop_stopped: "\<not> running (snd (stop dev s))"
  by (auto simp: stop_def Let_def split: prod.splits option.splits dest: enable_modules_frame)

lemma interleave_fold2:
  "fold (\<lambda>i st. fold (copy_one [c0, c1]) [0..<2] st) [0..<m] ([], [0, 0]) =
     (concat (map (\<lambda>i. [c0 ! i, c1 ! i]) [0..<m]), [m, m])"
proof (induction m)
  case 0
  then show ?case by simp
next
  case (Suc m)
  have two: "[0..<2] = [0, Suc 0]" by (simp add: upt_rec)
  have "fold (\<lambda>i st. fold (copy_one [c0, c1]) [0..<2] st) [0..<Suc m] ([], [0, 0]) =
        fold (copy_one [c0, c1]) [0..<2] (concat (map (\<lambda>i. [c0 ! i, c1 ! i]) [0..<m]), [m, m])"
    by (simp only: upt_Suc_append [OF le0] fold_append o_apply Suc fold_Cons fold_Nil id_apply)
  also have "\<dots> = (concat (map (\<lambda>i. [c0 ! i, c1 ! i]) [0..<Suc m]), [Suc m, Suc m])"
    by (simp add: two copy_one_def)
  finally show ?case .
qed

lemma interleave2:
  "interleave 2 m [c0, c1] = concat (map (\<lambda>i. [c0 ! i, c1 ! i]) [0..<m])"
proof -
  have "replicate 2 (0::nat) = [0, 0]" by (simp add: numeral_2_eq_2)
  then show ?thesis by (simp add: interleave_def interleave_fold2)
qed

lemma length_pairs: "length (concat (map (\<lambda>i. [f i, g i]) [0..<m])) = 2 * m"
  by (induction m) simp_all

lemma nth_pairs:
  "i < m \<Longrightarrow> concat (map (\<lambda>i. [f i, g i]) [0..<m]) ! (2 * i) = f i \<and>
              concat (map (\<lambda>i. [f i, g i]) [0..<m]) ! (2 * i + 1) = g i"
proof (induction m)
  case 0
  then show ?case by simp
next
  case (Suc m)
  show ?case
  proof (cases "i < m")
    case True
    with Suc.IH show ?thesis by (simp add: nth_append length_pairs)
  next
    case False
    with Suc.prems have "i = m" by simp
    then show ?thesis by (simp add: nth_append length_pairs)
  qed
qed

lemma write_buf_nth: "i < length xs \<Longrightarrow> write_buf xs buf ! i = xs ! i"
  by (simp add: write_buf_def nth_append)

lemma copy_in2_nth:
  assumes "i < nat n div 2"
  shows "copy_in 2 n [c0, c1] fb ! (2 * i) = c0 ! i"
    and "copy_in 2 n [c0, c1] fb ! (2 * i + 1) = c1 ! i"
  using assms nth_pairs [of i "nat n div 2" "\<lambda>i. c0 ! i" "\<lambda>i. c1 ! i"]
  by (simp_all add: copy_in_def interleave2 write_buf_nth length_pairs)

lemma copy_in2_prefix:
  "take (2 * (nat n div 2)) (copy_in 2 n [c0, c1] fb) =
     concat (map (\<lambda>i. [c0 ! i, c1 ! i]) [0..<nat n div 2])"
  by (simp add: copy_in_def interleave2 write_buf_def length_pairs)

text \<open>The tag loop neither reads nor writes the two buffers.\<close>

lemma tag_step_buffers:
  "tag_step K dev n nread t (l, s\<lparr>fcbuf32 := x, icbuf16 := y\<rparr>) =
     (case tag_step K dev n nread t (l, s) of
        (r, l', s') \<Rightarrow> (r, l', s'\<lparr>fcbuf32 := x, icbuf16 := y\<rparr>))"
  by (simp add: tag_step_def hw_def Let_def)

lemma tag_loop_buffers:
  "tag_loop K dev n nread ts (l, s\<lparr>fcbuf32 := x, icbuf16 := y\<rparr>) =
     (case tag_loop K dev n nread ts (l, s) of
        (r, l', s') \<Rightarrow> (r, l', s'\<lparr>fcbuf32 := x, icbuf16 := y\<rparr>))"
proof (induction ts arbitrary: l s)
  case Nil
  then show ?case by simp
next
  case (Cons t ts)
  obtain r1 l1 s1 where st: "tag_step K dev n nread t (l, s) = (r1, l1, s1)"
    by (cases "tag_step K dev n nread t (l, s)") auto
  show ?case
    by (cases r1) (simp_all add: tag_step_buffers st Cons.IH)
qed

lemma transmit_buffers:
  "transmit_with_tags K dev st0 tags nread n (s\<lparr>fcbuf32 := x, icbuf16 := y\<rparr>) =
     (case transmit_with_tags K dev st0 tags nread n s of
        (r, s') \<Rightarrow> (r, s'\<lparr>fcbuf32 := x, icbuf16 := y\<rparr>))"
proof -
  obtain r1 l1 s1 where lp: "tag_loop K dev n nread tags (init_locals st0 n, s) = (r1, l1, s1)"
    by (cases "tag_loop K dev n nread tags (init_locals st0 n, s)") auto
  show ?thesis
    by (cases r1) (simp_all add: transmit_with_tags_def Let_def hw_def tag_loop_buffers lp)
qed

lemma work_in_burst:
  "in_burst (snd (work K dev conv a s)) =
     (if running s \<and> fcbuf32 s \<noteq> None \<and> icbuf16 s \<noteq> None \<and> format s = SC16_Q11_META
      then in_burst (snd (transmit_with_tags K dev (stack_status a) (window_tags a)
                            (nitems_read a) (noutput_items a) s))
      else in_burst s)"
proof (cases "running s \<and> fcbuf32 s \<noteq> None \<and> icbuf16 s \<noteq> None \<and> format s = SC16_Q11_META")
  case False
  then show ?thesis
    by (auto simp: work_def work_transmit_def hw_def Let_def split: option.splits)
next
  case True
  then obtain fb ib where b: "fcbuf32 s = Some fb" "icbuf16 s = Some ib" by auto
  obtain r s' where tw: "transmit_with_tags K dev (stack_status a) (window_tags a)
                            (nitems_read a) (noutput_items a) s = (r, s')"
    by (cases "transmit_with_tags K dev (stack_status a) (window_tags a)
                            (nitems_read a) (noutput_items a) s") auto
  from True b tw show ?thesis
    by (simp add: work_def work_transmit_def Let_def transmit_buffers)
qed

lemma enable_modules_all_ok:
  "\<forall>k < length chs. dev (length (calls s) + k) = 0 \<Longrightarrow>
     enable_modules dev chs s =
       (None, s\<lparr>calls := calls s @ map (\<lambda>ch. Enable_module ch (channel_enable s ch)) chs\<rparr>)"
proof (induction chs arbitrary: s)
  case Nil
  then show ?case by simp
next
  case (Cons ch chs)
  let ?s1 = "s\<lparr>calls := calls s @ [Enable_module ch (channel_enable s ch)]\<rparr>"
  from Cons.prems have 0: "dev (length (calls s)) = 0" by force
  have "\<forall>k < length chs. dev (length (calls ?s1) + k) = 0"
    using Cons.prems by force
  from Cons.IH [OF this] 0 show ?case by (simp add: hw_def)
qed

lemma enable_modules_first_failure:
  "j < length chs \<Longrightarrow> dev (length (calls s) + j) \<noteq> 0 \<Longrightarrow>
   \<forall>k < j. dev (length (calls s) + k) = 0 \<Longrightarrow>
     enable_modules dev chs s =
       (Some (dev (length (calls s) + j)),
        s\<lparr>calls := calls s @
             map (\<lambda>ch. Enable_module ch (channel_enable s ch)) (take (Suc j) chs)\<rparr>)"
proof (induction chs arbitrary: s j)
  case Nil
  then show ?case by simp
next
  case (Cons ch chs)
  let ?s1 = "s\<lparr>calls := calls s @ [Enable_module ch (channel_enable s ch)]\<rparr>"
  show ?case
  proof (cases j)
    case 0
    with Cons.prems show ?thesis by (simp add: hw_def)
  next
    case (Suc i)
    with Cons.prems have 0: "dev (length (calls s)) = 0" by force
    have a: "i < length chs" using Cons.prems Suc by simp
    have b: "dev (length (calls ?s1) + i) \<noteq> 0" using Cons.prems Suc by simp
    have c: "\<forall>k < i. dev (length (calls ?s1) + k) = 0" using Cons.prems(3) Suc by force
    from Cons.IH [OF a b c] 0 Suc show ?thesis by (simp add: hw_def)
  qed
qed

section \<open>Batches without tags\<close>

text \<open>
  Claim C1: a batch with no tags, outside a burst, is dropped without a transfer and
  \<^verbatim>\<open>transmit_with_tags\<close> returns success, so that \<^verbatim>\<open>work\<close> reports the input as
  consumed. The batch is dropped, but the value returned is that of \<^verbatim>\<open>status\<close>, which
  no statement has assigned. Where it holds \<open>- 1\<close>, the call returns \<open>- 1\<close> with no
  call to the device, and \<^verbatim>\<open>work\<close>, with its counter one short of the threshold,
  returns \<^verbatim>\<open>WORK_DONE\<close> instead of the item count.
\<close>

theorem drop_returns_unassigned_status:
  "transmit_with_tags example_consts always_ok (- 1) [] 1000 32 example_sink
     = (- 1, example_sink) \<and>
   fst (work example_consts always_ok id example_call (example_sink\<lparr>failures := 2\<rparr>))
     = Returned (WORK_DONE example_consts) \<and>
   calls (snd (work example_consts always_ok id example_call (example_sink\<lparr>failures := 2\<rparr>)))
     = []"
  by (simp add: transmit_with_tags_def work_def work_transmit_def init_locals_def
      example_sink_def example_call_def example_consts_def copy_in_def write_buf_def Let_def)

text \<open>
  Claim C6: a batch with no tags, inside a burst, goes out as one transfer of all
  \<open>n\<close> samples from the start of the buffer, with zeroed metadata, and the status of
  that transfer is returned.
\<close>

theorem mid_burst_batch:
  "in_burst s \<Longrightarrow>
   transmit_with_tags K dev st0 [] nread n s =
     (dev (length (calls s)),
      s\<lparr>calls := calls s @
          [Sync_tx (Samples 0) n (Some \<lparr>timestamp = 0, flags = 0\<rparr>)]\<rparr>)"
  by (simp add: transmit_with_tags_def init_locals_def hw_def zero_meta_def)

theorem mid_burst_batch_witness:
  "in_burst (example_sink\<lparr>in_burst := True\<rparr>) \<and>
   transmit_with_tags example_consts always_fail 0 [] 1000 32
       (example_sink\<lparr>in_burst := True\<rparr>) =
     (- 1, example_sink\<lparr>in_burst := True,
             calls := [Sync_tx (Samples 0) 32 (Some \<lparr>timestamp = 0, flags = 0\<rparr>)]\<rparr>)"
  using mid_burst_batch [of "example_sink\<lparr>in_burst := True\<rparr>" example_consts always_fail
      0 1000 32]
  by (simp add: example_sink_def always_fail_def)

section \<open>Batches with tags\<close>

text \<open>
  Claim C3: a batch of 32 samples with a burst start at relative offset 5 and a burst
  end at relative offset 20, entered outside a burst, with both transfers succeeding,
  issues exactly two transfers: 16 samples from sample 5 (16-bit offset 10) with the
  start-now and burst-start flags, then 4 zero samples with only the burst-end flag.
  \<open>in_burst\<close> is false afterwards and the call returns 0.
\<close>

theorem sob_eob_batch:
  assumes "\<not> in_burst s"
    and "key t1 = ''tx_sob''" and "rel_offset nread t1 = 5"
    and "key t2 = ''tx_eob''" and "rel_offset nread t2 = 20"
    and "dev (length (calls s)) = 0" and "dev (Suc (length (calls s))) = 0"
  shows "transmit_with_tags K dev st0 [t1, t2] nread 32 s =
    (0, s\<lparr>in_burst := False,
          calls := calls s @
            [Sync_tx (Samples 10) 16
               (Some \<lparr>timestamp = 0,
                      flags = META_FLAG_TX_NOW K OR META_FLAG_TX_BURST_START K\<rparr>),
             Sync_tx Zeros 4
               (Some \<lparr>timestamp = 0, flags = META_FLAG_TX_BURST_END K\<rparr>)]\<rparr>)"
  using assms
  by (simp add: transmit_with_tags_def tag_step_def init_locals_def hw_def zero_meta_def
      INVALID_IDX_def Let_def flags_cleared)

theorem sob_eob_batch_witness:
  "\<not> in_burst example_sink \<and>
   rel_offset 1000 (sob_tag 1005) = 5 \<and> rel_offset 1000 (eob_tag 1020) = 20 \<and>
   always_ok (length (calls example_sink)) = 0 \<and>
   always_ok (Suc (length (calls example_sink))) = 0 \<and>
   transmit_with_tags example_consts always_ok (- 1) [sob_tag 1005, eob_tag 1020] 1000 32
       example_sink =
    (0, example_sink\<lparr>calls :=
            [Sync_tx (Samples 10) 16 (Some \<lparr>timestamp = 0, flags = 5\<rparr>),
             Sync_tx Zeros 4 (Some \<lparr>timestamp = 0, flags = 2\<rparr>)]\<rparr>)"
  using sob_eob_batch [of example_sink "sob_tag 1005" 1000 "eob_tag 1020" always_ok
      example_consts "- 1"]
  by (simp add: example_sink_def sob_tag_def eob_tag_def rel_offset_def always_ok_def
      example_consts_def)

text \<open>
  Claim C5: a batch of \<open>n\<close> samples whose only recognised tag is a burst start at relative
  offset \<open>k\<close>, entered outside a burst, issues exactly one transfer, of the \<open>n - k\<close>
  samples from sample \<open>k\<close> to sample \<open>n - 1\<close>, with the start-now and burst-start
  flags, and leaves \<open>in_burst\<close> true.
\<close>

theorem sob_only_batch:
  assumes "\<not> in_burst s" and "key t = ''tx_sob''" and "rel_offset nread t = k"
    and "\<forall>u \<in> set pre \<union> set post. key u \<noteq> ''tx_sob'' \<and> key u \<noteq> ''tx_eob''"
  shows "transmit_with_tags K dev st0 (pre @ t # post) nread n s =
    (dev (length (calls s)),
     s\<lparr>in_burst := True,
       calls := calls s @
         [Sync_tx (Samples (2 * k)) (n - k)
            (Some \<lparr>timestamp = 0,
                   flags = META_FLAG_TX_NOW K OR META_FLAG_TX_BURST_START K\<rparr>)]\<rparr>)"
proof -
  let ?l0 = "init_locals st0 n"
  let ?l1 = "?l0\<lparr>start_idx := k,
      meta := \<lparr>timestamp = 0, flags = META_FLAG_TX_NOW K OR META_FLAG_TX_BURST_START K\<rparr>\<rparr>"
  have before: "tag_loop K dev n nread pre (?l0, s) = (None, ?l0, s)"
    using assms(4) by (simp add: tag_loop_ignored)
  have at: "tag_step K dev n nread t (?l0, s) = (None, ?l1, s\<lparr>in_burst := True\<rparr>)"
    using assms(1-3) by (simp add: tag_step_def init_locals_def zero_meta_def)
  have after: "tag_loop K dev n nread post (?l1, s\<lparr>in_burst := True\<rparr>)
      = (None, ?l1, s\<lparr>in_burst := True\<rparr>)"
    using assms(4) by (simp add: tag_loop_ignored)
  have "tag_loop K dev n nread (pre @ t # post) (?l0, s) = (None, ?l1, s\<lparr>in_burst := True\<rparr>)"
    by (simp add: tag_loop_append before at after)
  then show ?thesis
    by (simp add: transmit_with_tags_def Let_def hw_def init_locals_def)
qed

theorem sob_only_batch_witness:
  "\<not> in_burst example_sink \<and> rel_offset 1000 (sob_tag 1010) = 10 \<and>
   transmit_with_tags example_consts always_ok (- 1)
       [other_tag 1002, sob_tag 1010, other_tag 1012] 1000 32 example_sink =
    (0, example_sink\<lparr>in_burst := True,
          calls := [Sync_tx (Samples 20) 22 (Some \<lparr>timestamp = 0, flags = 5\<rparr>)]\<rparr>)"
  using sob_only_batch [of example_sink "sob_tag 1010" 1000 10 "[other_tag 1002]"
      "[other_tag 1012]" example_consts always_ok "- 1" 32]
  by (simp add: example_sink_def sob_tag_def other_tag_def rel_offset_def always_ok_def
      example_consts_def)

section \<open>Errors inside the tag loop\<close>

text \<open>
  Claim C4: let the tags before \<open>t\<close> have been processed without a return, leaving the
  locals \<open>l\<close> and the object \<open>s1\<close>. If \<open>t\<close> is a burst start while \<open>in_burst\<close> is
  true, or a burst end while \<open>in_burst\<close> is false, or a burst end whose start index is
  unset or lies after its own index, then \<^verbatim>\<open>transmit_with_tags\<close> returns
  \<^verbatim>\<open>BLADERF_ERR_INVAL\<close> at once: the result does not depend on the tags after \<open>t\<close>,
  and the object is \<open>s1\<close>, with no further call to the device and \<open>in_burst\<close> as it was.
\<close>

theorem protocol_errors:
  assumes "tag_loop K dev n nread pre (init_locals st0 n, s) = (None, l, s1)"
    and "(key t = ''tx_sob'' \<and> in_burst s1) \<or>
         (key t = ''tx_eob'' \<and> \<not> in_burst s1) \<or>
         (key t = ''tx_eob'' \<and> in_burst s1 \<and>
            (start_idx l = INVALID_IDX \<or> start_idx l > rel_offset nread t))"
  shows "transmit_with_tags K dev st0 (pre @ t # rest) nread n s = (ERR_INVAL K, s1)"
proof -
  have "\<exists>l'. tag_step K dev n nread t (l, s1) = (Some (ERR_INVAL K), l', s1)"
    using assms(2) by (auto simp: tag_step_def Let_def)
  then show ?thesis
    using assms(1) transmit_early_return by blast
qed

theorem protocol_errors_witness:
  "transmit_with_tags example_consts always_ok 0 [sob_tag 1005, eob_tag 1020] 1000 32
       (example_sink\<lparr>in_burst := True\<rparr>)
     = (- 3, example_sink\<lparr>in_burst := True\<rparr>) \<and>
   transmit_with_tags example_consts always_ok 0 [eob_tag 1020, sob_tag 1025] 1000 32
       example_sink
     = (- 3, example_sink) \<and>
   transmit_with_tags example_consts always_ok 0 [sob_tag 1010, eob_tag 1005, eob_tag 1020]
       1000 32 example_sink
     = (- 3, example_sink\<lparr>in_burst := True\<rparr>)"
proof -
  have a: "transmit_with_tags example_consts always_ok 0 ([] @ sob_tag 1005 # [eob_tag 1020])
      1000 32 (example_sink\<lparr>in_burst := True\<rparr>)
     = (ERR_INVAL example_consts, example_sink\<lparr>in_burst := True\<rparr>)"
    by (rule protocol_errors [where l = "init_locals 0 32"])
      (simp_all add: sob_tag_def example_sink_def)
  have b: "transmit_with_tags example_consts always_ok 0 ([] @ eob_tag 1020 # [sob_tag 1025])
      1000 32 example_sink = (ERR_INVAL example_consts, example_sink)"
    by (rule protocol_errors [where l = "init_locals 0 32"])
      (simp_all add: eob_tag_def example_sink_def)
  have c: "transmit_with_tags example_consts always_ok 0
      ([sob_tag 1010] @ eob_tag 1005 # [eob_tag 1020]) 1000 32 example_sink
     = (ERR_INVAL example_consts, example_sink\<lparr>in_burst := True\<rparr>)"
    by (rule protocol_errors [where l = "(init_locals 0 32)\<lparr>start_idx := 10,
          meta := \<lparr>timestamp = 0, flags = 5\<rparr>\<rparr>"])
      (simp_all add: sob_tag_def eob_tag_def example_sink_def tag_step_def rel_offset_def
        init_locals_def zero_meta_def example_consts_def)
  from a b c show ?thesis by (simp add: example_consts_def)
qed

text \<open>
  Claim C10: at a burst end that passes the checks, the two transfers fail differently.
  If the data transfer fails, its status is returned with \<open>in_burst\<close> still true, the
  start index and the metadata flags as they were and the end index at the tag. If the
  data transfer succeeds and the flush of zero samples fails, \<open>in_burst\<close> is false, the
  start index is unset, the end index is back at \<open>n - 1\<close> and the flags are zero, and
  then the status of the flush is returned.
\<close>

theorem eob_failure_paths:
  assumes "tag_loop K dev n nread pre (init_locals st0 n, s) = (None, l, s1)"
    and "key t = ''tx_eob''" and "in_burst s1"
    and "start_idx l \<noteq> INVALID_IDX" and "start_idx l \<le> rel_offset nread t"
  shows "(dev (length (calls s1)) \<noteq> 0 \<longrightarrow>
           tag_step K dev n nread t (l, s1) =
             (Some (dev (length (calls s1))),
              l\<lparr>end_idx := rel_offset nread t,
                count := rel_offset nread t - start_idx l + 1,
                status := dev (length (calls s1))\<rparr>,
              s1\<lparr>calls := calls s1 @
                 [Sync_tx (Samples (2 * start_idx l))
                    (rel_offset nread t - start_idx l + 1) (Some (meta l))]\<rparr>) \<and>
           transmit_with_tags K dev st0 (pre @ t # rest) nread n s =
             (dev (length (calls s1)),
              s1\<lparr>calls := calls s1 @
                 [Sync_tx (Samples (2 * start_idx l))
                    (rel_offset nread t - start_idx l + 1) (Some (meta l))]\<rparr>)) \<and>
         (dev (length (calls s1)) = 0 \<and> dev (Suc (length (calls s1))) \<noteq> 0 \<longrightarrow>
           tag_step K dev n nread t (l, s1) =
             (Some (dev (Suc (length (calls s1)))),
              l\<lparr>end_idx := n - 1,
                count := rel_offset nread t - start_idx l + 1,
                status := dev (Suc (length (calls s1))),
                start_idx := INVALID_IDX,
                meta := (meta l)\<lparr>flags := 0\<rparr>\<rparr>,
              s1\<lparr>in_burst := False,
                 calls := calls s1 @
                 [Sync_tx (Samples (2 * start_idx l))
                    (rel_offset nread t - start_idx l + 1) (Some (meta l)),
                  Sync_tx Zeros 4
                    (Some ((meta l)\<lparr>flags := flags (meta l) AND
                       NOT (META_FLAG_TX_NOW K OR META_FLAG_TX_BURST_START K) OR
                       META_FLAG_TX_BURST_END K\<rparr>))]\<rparr>) \<and>
           transmit_with_tags K dev st0 (pre @ t # rest) nread n s =
             (dev (Suc (length (calls s1))),
              s1\<lparr>in_burst := False,
                 calls := calls s1 @
                 [Sync_tx (Samples (2 * start_idx l))
                    (rel_offset nread t - start_idx l + 1) (Some (meta l)),
                  Sync_tx Zeros 4
                    (Some ((meta l)\<lparr>flags := flags (meta l) AND
                       NOT (META_FLAG_TX_NOW K OR META_FLAG_TX_BURST_START K) OR
                       META_FLAG_TX_BURST_END K\<rparr>))]\<rparr>))"
proof (intro conjI impI)
  assume f: "dev (length (calls s1)) \<noteq> 0"
  show m: "tag_step K dev n nread t (l, s1) =
             (Some (dev (length (calls s1))),
              l\<lparr>end_idx := rel_offset nread t,
                count := rel_offset nread t - start_idx l + 1,
                status := dev (length (calls s1))\<rparr>,
              s1\<lparr>calls := calls s1 @
                 [Sync_tx (Samples (2 * start_idx l))
                    (rel_offset nread t - start_idx l + 1) (Some (meta l))]\<rparr>)"
    using assms(2-5) f by (simp add: tag_step_def Let_def hw_def)
  show "transmit_with_tags K dev st0 (pre @ t # rest) nread n s =
             (dev (length (calls s1)),
              s1\<lparr>calls := calls s1 @
                 [Sync_tx (Samples (2 * start_idx l))
                    (rel_offset nread t - start_idx l + 1) (Some (meta l))]\<rparr>)"
    by (rule transmit_early_return [OF assms(1) m])
next
  assume f: "dev (length (calls s1)) = 0 \<and> dev (Suc (length (calls s1))) \<noteq> 0"
  show m: "tag_step K dev n nread t (l, s1) =
             (Some (dev (Suc (length (calls s1)))),
              l\<lparr>end_idx := n - 1,
                count := rel_offset nread t - start_idx l + 1,
                status := dev (Suc (length (calls s1))),
                start_idx := INVALID_IDX,
                meta := (meta l)\<lparr>flags := 0\<rparr>\<rparr>,
              s1\<lparr>in_burst := False,
                 calls := calls s1 @
                 [Sync_tx (Samples (2 * start_idx l))
                    (rel_offset nread t - start_idx l + 1) (Some (meta l)),
                  Sync_tx Zeros 4
                    (Some ((meta l)\<lparr>flags := flags (meta l) AND
                       NOT (META_FLAG_TX_NOW K OR META_FLAG_TX_BURST_START K) OR
                       META_FLAG_TX_BURST_END K\<rparr>))]\<rparr>)"
    using assms(2-5) f by (simp add: tag_step_def Let_def hw_def)
  show "transmit_with_tags K dev st0 (pre @ t # rest) nread n s =
             (dev (Suc (length (calls s1))),
              s1\<lparr>in_burst := False,
                 calls := calls s1 @
                 [Sync_tx (Samples (2 * start_idx l))
                    (rel_offset nread t - start_idx l + 1) (Some (meta l)),
                  Sync_tx Zeros 4
                    (Some ((meta l)\<lparr>flags := flags (meta l) AND
                       NOT (META_FLAG_TX_NOW K OR META_FLAG_TX_BURST_START K) OR
                       META_FLAG_TX_BURST_END K\<rparr>))]\<rparr>)"
    by (rule transmit_early_return [OF assms(1) m])
qed

theorem eob_failure_paths_witness:
  "transmit_with_tags example_consts always_fail 0 [sob_tag 1005, eob_tag 1020] 1000 32
       example_sink
     = (- 1, example_sink\<lparr>in_burst := True,
          calls := [Sync_tx (Samples 10) 16 (Some \<lparr>timestamp = 0, flags = 5\<rparr>)]\<rparr>) \<and>
   transmit_with_tags example_consts fail_second 0 [sob_tag 1005, eob_tag 1020] 1000 32
       example_sink
     = (- 1, example_sink\<lparr>in_burst := False,
          calls := [Sync_tx (Samples 10) 16 (Some \<lparr>timestamp = 0, flags = 5\<rparr>),
                    Sync_tx Zeros 4 (Some \<lparr>timestamp = 0, flags = 2\<rparr>)]\<rparr>)"
proof -
  let ?l = "(init_locals 0 32)\<lparr>start_idx := 5, meta := \<lparr>timestamp = 0, flags = 5\<rparr>\<rparr>"
  let ?s1 = "example_sink\<lparr>in_burst := True\<rparr>"
  have pre: "tag_loop example_consts dev 32 1000 [sob_tag 1005] (init_locals 0 32, example_sink)
      = (None, ?l, ?s1)" for dev
    by (simp add: sob_tag_def example_sink_def tag_step_def rel_offset_def
        init_locals_def zero_meta_def example_consts_def)
  have hyps: "key (eob_tag 1020) = ''tx_eob''" "in_burst ?s1" "start_idx ?l \<noteq> INVALID_IDX"
    "start_idx ?l \<le> rel_offset 1000 (eob_tag 1020)"
    by (simp_all add: eob_tag_def rel_offset_def INVALID_IDX_def)
  from eob_failure_paths [OF pre hyps, of always_fail "[]"]
  have a: "transmit_with_tags example_consts always_fail 0 [sob_tag 1005, eob_tag 1020] 1000 32
       example_sink
     = (- 1, example_sink\<lparr>in_burst := True,
          calls := [Sync_tx (Samples 10) 16 (Some \<lparr>timestamp = 0, flags = 5\<rparr>)]\<rparr>)"
    by (simp add: always_fail_def example_sink_def eob_tag_def rel_offset_def init_locals_def)
  from eob_failure_paths [OF pre hyps, of fail_second "[]"]
  have b: "transmit_with_tags example_consts fail_second 0 [sob_tag 1005, eob_tag 1020] 1000 32
       example_sink
     = (- 1, example_sink\<lparr>in_burst := False,
          calls := [Sync_tx (Samples 10) 16 (Some \<lparr>timestamp = 0, flags = 5\<rparr>),
                    Sync_tx Zeros 4 (Some \<lparr>timestamp = 0, flags = 2\<rparr>)]\<rparr>)"
    by (simp add: fail_second_def example_sink_def eob_tag_def rel_offset_def init_locals_def
        example_consts_def)
  from a b show ?thesis by simp
qed

section \<open>The failure policy\<close>

text \<open>
  Claim C2, as stated: after exactly \<^verbatim>\<open>MAX_CONSECUTIVE_FAILURES\<close> consecutive failing
  invocations, the next invocation signals \<^verbatim>\<open>WORK_DONE\<close>. With the threshold at 3 and a
  device whose first three transfers fail, the third invocation already returns
  \<^verbatim>\<open>WORK_DONE\<close>, and the next one, whose transfer succeeds, returns the item count.
\<close>

theorem termination_call_counterexample:
  "all_fail example_consts fail_thrice id [example_call, example_call, example_call]
      (example_sink\<lparr>format := SC16_Q11\<rparr>) \<and>
   failures (example_sink\<lparr>format := SC16_Q11\<rparr>) = 0 \<and>
   length [example_call, example_call, example_call]
     = MAX_CONSECUTIVE_FAILURES example_consts \<and>
   fst (work_run example_consts fail_thrice id
          [example_call, example_call, example_call, example_call]
          (example_sink\<lparr>format := SC16_Q11\<rparr>))
     = [Returned 4, Returned 4, Returned (WORK_DONE example_consts), Returned 4] \<and>
   Returned 4 \<noteq> Returned (WORK_DONE example_consts)"
  by (simp add: work_status_def work_def work_transmit_def hw_def copy_in_def write_buf_def
      example_sink_def example_call_def example_consts_def fail_thrice_def Let_def)

text \<open>
  Claim C2, amended: in a sequence of invocations whose transfer status is non-zero
  every time, each invocation adds one to the counter; invocation number \<open>k\<close> (from 0)
  returns its item count while the counter it leaves, \<open>failures s + k + 1\<close>, is below
  \<^verbatim>\<open>MAX_CONSECUTIVE_FAILURES\<close>, and returns \<^verbatim>\<open>WORK_DONE\<close> from the invocation that
  brings the counter to the threshold onwards. An invocation whose status is zero
  returns its item count and sets the counter to zero, so that the full threshold of
  failures is needed again.
\<close>

theorem failure_policy:
  "(all_fail K dev conv as s \<longrightarrow>
      failures (snd (work_run K dev conv as s)) = failures s + length as \<and>
      (\<forall>k < length as. fst (work_run K dev conv as s) ! k =
         Returned (if MAX_CONSECUTIVE_FAILURES K \<le> failures s + k + 1 then WORK_DONE K
                   else noutput_items (as ! k)))) \<and>
   (work_status K dev conv a s = Some 0 \<longrightarrow>
      fst (work K dev conv a s) = Returned (noutput_items a) \<and>
      failures (snd (work K dev conv a s)) = 0)"
  using run_fail [of K dev conv as s] work_success [of K dev conv a s] by blast

theorem failure_policy_witness:
  "all_fail example_consts always_fail id [example_call, example_call, example_call]
      (example_sink\<lparr>format := SC16_Q11\<rparr>) \<and>
   fst (work_run example_consts always_fail id [example_call, example_call, example_call]
          (example_sink\<lparr>format := SC16_Q11\<rparr>)) ! 1 = Returned 4 \<and>
   fst (work_run example_consts always_fail id [example_call, example_call, example_call]
          (example_sink\<lparr>format := SC16_Q11\<rparr>)) ! 2 = Returned (- 1) \<and>
   failures (snd (work_run example_consts always_fail id
          [example_call, example_call, example_call]
          (example_sink\<lparr>format := SC16_Q11\<rparr>))) = 3 \<and>
   work_status example_consts always_ok id example_call
      (example_sink\<lparr>format := SC16_Q11, failures := 2\<rparr>) = Some 0 \<and>
   fst (work example_consts always_ok id example_call
      (example_sink\<lparr>format := SC16_Q11, failures := 2\<rparr>)) = Returned 4 \<and>
   failures (snd (work example_consts always_ok id example_call
      (example_sink\<lparr>format := SC16_Q11, failures := 2\<rparr>))) = 0"
proof -
  let ?s = "example_sink\<lparr>format := SC16_Q11\<rparr>"
  let ?as = "[example_call, example_call, example_call]"
  have h: "all_fail example_consts always_fail id ?as ?s"
    by (simp add: work_status_def work_def work_transmit_def hw_def copy_in_def write_buf_def
        example_sink_def example_call_def example_consts_def always_fail_def Let_def)
  have g: "work_status example_consts always_ok id example_call (?s\<lparr>failures := 2\<rparr>) = Some 0"
    by (simp add: work_status_def work_transmit_def hw_def copy_in_def write_buf_def
        example_sink_def example_call_def always_ok_def Let_def)
  from failure_policy [of example_consts always_fail id ?as ?s] h
  have 1: "failures (snd (work_run example_consts always_fail id ?as ?s)) = failures ?s + length ?as"
    and 2: "\<forall>k < length ?as. fst (work_run example_consts always_fail id ?as ?s) ! k =
         Returned (if MAX_CONSECUTIVE_FAILURES example_consts \<le> failures ?s + k + 1
                   then WORK_DONE example_consts else noutput_items (?as ! k))"
    by blast+
  from 2 have 3: "fst (work_run example_consts always_fail id ?as ?s) ! 1 = Returned 4"
    by (simp add: example_consts_def example_sink_def example_call_def)
  from 2 have 4: "fst (work_run example_consts always_fail id ?as ?s) ! 2 = Returned (- 1)"
    by (simp add: example_consts_def example_sink_def example_call_def)
  from 1 have 5: "failures (snd (work_run example_consts always_fail id ?as ?s)) = 3"
    by (simp add: example_sink_def)
  from failure_policy [of example_consts always_ok id "[]" "?s\<lparr>failures := 2\<rparr>" example_call] g
  have 6: "fst (work example_consts always_ok id example_call (?s\<lparr>failures := 2\<rparr>)) = Returned 4"
    and 7: "failures (snd (work example_consts always_ok id example_call (?s\<lparr>failures := 2\<rparr>))) = 0"
    by (simp_all add: example_call_def)
  from h g 3 4 5 6 7 show ?thesis by simp
qed

section \<open>Interleaving\<close>

text \<open>
  What the two-stream copy leaves in the float buffer, in general: the first
  \<open>noutput_items div 2\<close> items of each stream, one of each stream in turn, followed by
  what the buffer held before from that position on.
\<close>

lemma interleave_first_half:
  assumes "running s" and "nstreams s = 2"
    and "fcbuf32 s = Some fb" and "icbuf16 s = Some ib"
    and "input_items a = [ch0, ch1]"
  shows "fcbuf32 (snd (work K dev conv a s)) =
           Some (concat (map (\<lambda>j. [ch0 ! j, ch1 ! j]) [0..<nat (noutput_items a) div 2]) @
                 drop (2 * (nat (noutput_items a) div 2)) fb)"
proof -
  obtain r s3 where wt: "work_transmit K dev conv a fb ib s = (r, s3)"
    by (cases "work_transmit K dev conv a fb ib s") auto
  from work_transmit_frame [OF wt] assms(2,5)
  have "fcbuf32 s3 = Some (copy_in 2 (noutput_items a) [ch0, ch1] fb)" by simp
  then have "fcbuf32 (snd (work K dev conv a s)) =
      Some (copy_in 2 (noutput_items a) [ch0, ch1] fb)"
    using assms(1,3,4) wt by (simp add: work_def Let_def)
  then show ?thesis
    by (simp add: copy_in_def interleave2 write_buf_def length_pairs)
qed

text \<open>
  Claim C8: with two input streams of \<open>M\<close> frames each, the float buffer handed to the
  converter holds \<open>ch0[0], ch1[0], ch0[1], ch1[1], \<dots>\<close>, one sample of each stream
  per time step. The order is round-robin, but the loop runs \<open>noutput_items / nstreams\<close>
  times while \<open>noutput_items\<close> is the number of items of each stream, so only the first
  half of each stream is copied. With four items per stream, \<open>10, 11, 12, 13\<close> and
  \<open>20, 21, 22, 23\<close>, the buffer holds \<open>10, 20, 11, 21\<close> followed by its old contents;
  the items \<open>12, 13, 22, 23\<close> reach neither the buffer nor the device, one transfer of
  four samples is made, and \<^verbatim>\<open>work\<close> returns 4, the count of items consumed from each
  stream. In the single-stream branch all \<open>noutput_items\<close> items are copied.
\<close>

theorem two_streams_half_copied:
  "input_items two_channel_call = [[10, 11, 12, 13], [20, 21, 22, 23]] \<and>
   noutput_items two_channel_call = 4 \<and>
   fcbuf32 (snd (work example_consts always_ok id two_channel_call
      (example_sink\<lparr>nstreams := 2, format := SC16_Q11\<rparr>)))
     = Some [10, 20, 11, 21, 0, 0, 0, 0] \<and>
   icbuf16 (snd (work example_consts always_ok id two_channel_call
      (example_sink\<lparr>nstreams := 2, format := SC16_Q11\<rparr>)))
     = Some [10, 20, 11, 21, 0, 0, 0, 0] \<and>
   calls (snd (work example_consts always_ok id two_channel_call
      (example_sink\<lparr>nstreams := 2, format := SC16_Q11\<rparr>)))
     = [Sync_tx (Samples 0) 4 None] \<and>
   fst (work example_consts always_ok id two_channel_call
      (example_sink\<lparr>nstreams := 2, format := SC16_Q11\<rparr>)) = Returned 4"
proof -
  have two: "[0..<2] = [0, Suc 0]" by (simp add: upt_rec)
  have rep: "replicate 2 (0::nat) = [0, 0]" by (simp add: numeral_2_eq_2)
  have rep4: "replicate 4 (0::nat) = [0, 0, 0, 0]" by (simp add: numeral_eq_Suc)
  show ?thesis
    by (simp add: work_def work_transmit_def hw_def copy_in_def write_buf_def interleave_def
        copy_one_def example_sink_def two_channel_call_def always_ok_def Let_def two rep rep4)
qed

section \<open>The writers of in_burst\<close>

text \<open>
  Claim C7, as stated: every entry point other than \<^verbatim>\<open>transmit_with_tags\<close>, and
  \<^verbatim>\<open>start\<close> among them, leaves \<open>in_burst\<close> as it is. \<^verbatim>\<open>start\<close> assigns false to
  it before anything else: started inside a burst, the sink is outside one afterwards.
\<close>

theorem start_resets_in_burst_counterexample:
  "in_burst (example_sink\<lparr>in_burst := True\<rparr>) \<and>
   fst (start always_ok [] [] (example_sink\<lparr>in_burst := True\<rparr>)) = Returned True \<and>
   in_burst (snd (start always_ok [] [] (example_sink\<lparr>in_burst := True\<rparr>))) = False"
  by (simp add: start_def hw_def example_sink_def always_ok_def Let_def)

text \<open>
  Claim C7, amended: \<open>in_burst\<close> is written only by \<^verbatim>\<open>transmit_with_tags\<close> and by
  \<^verbatim>\<open>start\<close>, which sets it to false whatever it was, also when \<^verbatim>\<open>start\<close> then
  throws. \<^verbatim>\<open>stop\<close> leaves it as it is. \<^verbatim>\<open>work\<close> has no write of its own: when it
  does not reach \<^verbatim>\<open>transmit_with_tags\<close> (sink not running, a buffer missing, or a
  format without metadata) \<open>in_burst\<close> is afterwards what it was, and when it does,
  \<open>in_burst\<close> is afterwards what \<^verbatim>\<open>transmit_with_tags\<close> leaves when it is entered
  with the object as \<^verbatim>\<open>work\<close> found it.
\<close>

theorem in_burst_writers:
  "in_burst (snd (stop dev s)) = in_burst s \<and>
   \<not> in_burst (snd (start dev mem16 mem32 s)) \<and>
   in_burst (snd (work K dev conv a s)) =
     (if running s \<and> fcbuf32 s \<noteq> None \<and> icbuf16 s \<noteq> None \<and> format s = SC16_Q11_META
      then in_burst (snd (transmit_with_tags K dev (stack_status a) (window_tags a)
                            (nitems_read a) (noutput_items a) s))
      else in_burst s)"
proof (intro conjI)
  show "in_burst (snd (stop dev s)) = in_burst s"
    by (auto simp: stop_def Let_def split: prod.splits option.splits
        dest: enable_modules_frame)
  show "\<not> in_burst (snd (start dev mem16 mem32 s))"
    by (auto simp: start_def Let_def hw_def split: prod.splits option.splits
        dest: enable_modules_frame)
  show "in_burst (snd (work K dev conv a s)) =
     (if running s \<and> fcbuf32 s \<noteq> None \<and> icbuf16 s \<noteq> None \<and> format s = SC16_Q11_META
      then in_burst (snd (transmit_with_tags K dev (stack_status a) (window_tags a)
                            (nitems_read a) (noutput_items a) s))
      else in_burst s)"
    by (rule work_in_burst)
qed

theorem in_burst_writers_witness:
  "in_burst (snd (work example_consts always_ok id example_call
      (example_sink\<lparr>in_burst := True, format := SC16_Q11\<rparr>))) \<and>
   in_burst (snd (stop always_ok (example_sink\<lparr>in_burst := True, format := SC16_Q11\<rparr>))) \<and>
   \<not> in_burst example_sink \<and>
   in_burst (snd (work example_consts always_ok id
      (example_call\<lparr>window_tags := [sob_tag 1001]\<rparr>) example_sink)) \<and>
   \<not> in_burst (snd (work example_consts always_ok id
      (example_call\<lparr>window_tags := [eob_tag 1001]\<rparr>) (example_sink\<lparr>in_burst := True\<rparr>)))"
proof -
  have a: "in_burst (snd (work example_consts always_ok id example_call
      (example_sink\<lparr>in_burst := True, format := SC16_Q11\<rparr>)))"
    and b: "in_burst (snd (stop always_ok
      (example_sink\<lparr>in_burst := True, format := SC16_Q11\<rparr>)))"
    using in_burst_writers [of always_ok
        "example_sink\<lparr>in_burst := True, format := SC16_Q11\<rparr>" "[]" "[]" example_consts id
        example_call]
    by (simp_all add: example_sink_def)
  have c: "in_burst (snd (work example_consts always_ok id
      (example_call\<lparr>window_tags := [sob_tag 1001]\<rparr>) example_sink))"
    using in_burst_writers [of always_ok example_sink "[]" "[]" example_consts id
        "example_call\<lparr>window_tags := [sob_tag 1001]\<rparr>"]
    by (simp add: example_sink_def example_call_def sob_tag_def transmit_with_tags_def
        tag_step_def init_locals_def hw_def Let_def)
  have d: "\<not> in_burst (snd (work example_consts always_ok id
      (example_call\<lparr>window_tags := [eob_tag 1001]\<rparr>) (example_sink\<lparr>in_burst := True\<rparr>)))"
    using in_burst_writers [of always_ok "example_sink\<lparr>in_burst := True\<rparr>" "[]" "[]"
        example_consts id "example_call\<lparr>window_tags := [eob_tag 1001]\<rparr>"]
    by (simp add: example_sink_def example_call_def eob_tag_def transmit_with_tags_def
        tag_step_def init_locals_def hw_def Let_def rel_offset_def INVALID_IDX_def
        always_ok_def)
  have e: "\<not> in_burst example_sink" by (simp add: example_sink_def)
  from a b c d e show ?thesis by simp
qed

section \<open>Stopping twice\<close>

text \<open>
  Claim C9, as stated: two consecutive calls of \<^verbatim>\<open>stop\<close> both return success. On a
  running sink whose device refuses \<^verbatim>\<open>bladerf_enable_module\<close>, the first call throws.
\<close>

theorem stop_throws_counterexample:
  "running example_sink \<and>
   fst (stop always_fail example_sink) = Threw (- 1) ''bladerf_enable_module failed'' \<and>
   fst (stop always_fail example_sink) \<noteq> Returned True"
  by (simp add: stop_def hw_def example_sink_def always_fail_def Let_def upt_rec)

text \<open>
  Claim C9, amended: \<^verbatim>\<open>stop\<close> on a sink that is not running returns true and changes
  nothing, so it makes no call to the device and leaves the buffers alone. After any
  call of \<^verbatim>\<open>stop\<close>, whether it returned or threw, the sink is not running, so the call
  that follows is of that kind. On a running sink, \<^verbatim>\<open>stop\<close> clears \<open>running\<close> and calls
  \<^verbatim>\<open>bladerf_enable_module\<close> for the channels in order. When each of these calls
  succeeds it releases both buffers and returns true. When one fails it throws with the
  status of the first that fails, having made no call after that one and with the buffers
  still allocated.
\<close>

theorem stop_idempotent:
  "(\<not> running s \<longrightarrow> stop dev s = (Returned True, s)) \<and>
   stop dev' (snd (stop dev s)) = (Returned True, snd (stop dev s)) \<and>
   ((\<forall>k < max_channels s. dev (length (calls s) + k) = 0) \<longrightarrow>
      fst (stop dev s) = Returned True) \<and>
   (running s \<and> (\<forall>k < max_channels s. dev (length (calls s) + k) = 0) \<longrightarrow>
      stop dev s =
        (Returned True,
         s\<lparr>running := False, icbuf16 := None, fcbuf32 := None,
           calls := calls s @
             map (\<lambda>ch. Enable_module ch (channel_enable s ch)) [0..<max_channels s]\<rparr>)) \<and>
   (running s \<and> j < max_channels s \<and> dev (length (calls s) + j) \<noteq> 0 \<and>
    (\<forall>k < j. dev (length (calls s) + k) = 0) \<longrightarrow>
      stop dev s =
        (Threw (dev (length (calls s) + j)) ''bladerf_enable_module failed'',
         s\<lparr>running := False,
           calls := calls s @
             map (\<lambda>ch. Enable_module ch (channel_enable s ch)) [0..<Suc j]\<rparr>))"
proof (intro conjI impI)
  show "stop dev s = (Returned True, s)" if "\<not> running s"
    using that by (simp add: stop_def)
  show "stop dev' (snd (stop dev s)) = (Returned True, snd (stop dev s))"
    using stop_stopped [of dev s] by (simp add: stop_def)
  show "fst (stop dev s) = Returned True"
    if ok: "\<forall>k < max_channels s. dev (length (calls s) + k) = 0"
  proof (cases "running s")
    case False
    then show ?thesis by (simp add: stop_def)
  next
    case True
    have "fst (enable_modules dev [0..<max_channels s] (s\<lparr>running := False\<rparr>)) = None"
      using ok by (intro enable_modules_ok) simp
    then obtain s' where
      "enable_modules dev [0..<max_channels s] (s\<lparr>running := False\<rparr>) = (None, s')"
      by (cases "enable_modules dev [0..<max_channels s] (s\<lparr>running := False\<rparr>)") simp
    with True show ?thesis by (simp add: stop_def Let_def)
  qed
  show "stop dev s =
        (Returned True,
         s\<lparr>running := False, icbuf16 := None, fcbuf32 := None,
           calls := calls s @
             map (\<lambda>ch. Enable_module ch (channel_enable s ch)) [0..<max_channels s]\<rparr>)"
    if h: "running s \<and> (\<forall>k < max_channels s. dev (length (calls s) + k) = 0)"
  proof -
    have "\<forall>k < length [0..<max_channels s].
        dev (length (calls (s\<lparr>running := False\<rparr>)) + k) = 0"
      using h by simp
    from enable_modules_all_ok [OF this] h show ?thesis
      by (simp add: stop_def Let_def)
  qed
  show "stop dev s =
        (Threw (dev (length (calls s) + j)) ''bladerf_enable_module failed'',
         s\<lparr>running := False,
           calls := calls s @
             map (\<lambda>ch. Enable_module ch (channel_enable s ch)) [0..<Suc j]\<rparr>)"
    if h: "running s \<and> j < max_channels s \<and> dev (length (calls s) + j) \<noteq> 0 \<and>
      (\<forall>k < j. dev (length (calls s) + k) = 0)"
  proof -
    let ?s1 = "s\<lparr>running := False\<rparr>"
    have a: "j < length [0..<max_channels s]" using h by simp
    have b: "dev (length (calls ?s1) + j) \<noteq> 0" using h by simp
    have c: "\<forall>k < j. dev (length (calls ?s1) + k) = 0" using h by simp
    have t: "take (Suc j) [0..<max_channels s] = [0..<Suc j]"
      using h by (simp add: take_upt)
    from enable_modules_first_failure [OF a b c] h t show ?thesis
      by (simp add: stop_def Let_def)
  qed
qed

theorem stop_idempotent_witness:
  "running example_sink \<and> max_channels example_sink = 1 \<and>
   always_ok (length (calls example_sink) + 0) = 0 \<and>
   stop always_ok example_sink =
     (Returned True,
      example_sink\<lparr>running := False, icbuf16 := None, fcbuf32 := None,
        calls := [Enable_module 0 True]\<rparr>) \<and>
   stop always_ok (snd (stop always_ok example_sink))
     = (Returned True, snd (stop always_ok example_sink)) \<and>
   always_fail (length (calls example_sink) + 0) = - 1 \<and>
   stop always_fail example_sink =
     (Threw (- 1) ''bladerf_enable_module failed'',
      example_sink\<lparr>running := False, calls := [Enable_module 0 True]\<rparr>) \<and>
   stop always_fail (snd (stop always_fail example_sink))
     = (Returned True, snd (stop always_fail example_sink)) \<and>
   stop always_ok (example_sink\<lparr>running := False\<rparr>)
     = (Returned True, example_sink\<lparr>running := False\<rparr>)"
proof -
  have ok: "\<forall>k < max_channels example_sink. always_ok (length (calls example_sink) + k) = 0"
    by (simp add: always_ok_def)
  have r: "running example_sink" and m: "max_channels example_sink = 1"
    by (simp_all add: example_sink_def)
  have one: "[0..<Suc 0] = [0]" by simp
  from stop_idempotent [of example_sink always_ok always_ok 0] ok r
  have 1: "stop always_ok example_sink =
     (Returned True,
      example_sink\<lparr>running := False, icbuf16 := None, fcbuf32 := None,
        calls := calls example_sink @
          map (\<lambda>ch. Enable_module ch (channel_enable example_sink ch))
            [0..<max_channels example_sink]\<rparr>)"
    and 2: "stop always_ok (snd (stop always_ok example_sink))
     = (Returned True, snd (stop always_ok example_sink))"
    by blast+
  from 1 have ok1: "stop always_ok example_sink =
     (Returned True,
      example_sink\<lparr>running := False, icbuf16 := None, fcbuf32 := None,
        calls := [Enable_module 0 True]\<rparr>)"
    by (simp add: example_sink_def)
  have f: "running example_sink \<and> 0 < max_channels example_sink \<and>
      always_fail (length (calls example_sink) + 0) \<noteq> 0 \<and>
      (\<forall>k < 0. always_fail (length (calls example_sink) + k) = 0)"
    by (simp add: example_sink_def always_fail_def)
  from stop_idempotent [of example_sink always_fail always_fail 0] f
  have 3: "stop always_fail example_sink =
        (Threw (always_fail (length (calls example_sink) + 0)) ''bladerf_enable_module failed'',
         example_sink\<lparr>running := False,
           calls := calls example_sink @
             map (\<lambda>ch. Enable_module ch (channel_enable example_sink ch)) [0..<Suc 0]\<rparr>)"
    and 4: "stop always_fail (snd (stop always_fail example_sink))
     = (Returned True, snd (stop always_fail example_sink))"
    by blast+
  from 3 have fail1: "stop always_fail example_sink =
     (Threw (- 1) ''bladerf_enable_module failed'',
      example_sink\<lparr>running := False, calls := [Enable_module 0 True]\<rparr>)"
    by (simp add: example_sink_def always_fail_def)
  from stop_idempotent [of "example_sink\<lparr>running := False\<rparr>" always_ok always_ok 0]
  have 5: "stop always_ok (example_sink\<lparr>running := False\<rparr>)
     = (Returned True, example_sink\<lparr>running := False\<rparr>)"
    by simp
  have 6: "always_ok (length (calls example_sink) + 0) = 0" by (simp add: always_ok_def)
  have 7: "always_fail (length (calls example_sink) + 0) = - 1" by (simp add: always_fail_def)
  from r m ok1 2 fail1 4 5 6 7 show ?thesis by blast
qed

end
